theory Spec2Isabelle
  imports Complex_Main "HOL-Library.Sublist" "HOL-Library.Char_ord" "HOL-Library.List_Lexorder"
begin

section \<open>JavaScript strings and values\<close>

text \<open>
  A JavaScript string is modelled as a list of 8-bit code units (the Latin-1 range of
  UTF-16). \<open>toLowerCase\<close> and the case folding of a regular expression with the
  \<open>i\<close> flag (and no \<open>u\<close> flag) are closed on that range: the upper-case letters are
  \<open>A-Z\<close> (65..90) and \<open>U+00C0..U+00DE\<close> without the multiplication sign (215), and a
  letter and its other case differ in bit 5 only.
\<close>

definition is_upper :: "char \<Rightarrow> bool" where
  "is_upper c = (let n = of_char c :: nat in
     (65 \<le> n \<and> n \<le> 90) \<or> (192 \<le> n \<and> n \<le> 222 \<and> n \<noteq> 215))"

definition is_lower :: "char \<Rightarrow> bool" where
  "is_lower c = (let n = of_char c :: nat in
     (97 \<le> n \<and> n \<le> 122) \<or> (224 \<le> n \<and> n \<le> 254 \<and> n \<noteq> 247))"

text \<open>\<open>String.prototype.toLowerCase\<close>, one code unit at a time.\<close>

definition toLowerCase_char :: "char \<Rightarrow> char" where
  "toLowerCase_char c = (if is_upper c then
     (case c of Char b0 b1 b2 b3 b4 b5 b6 b7 \<Rightarrow> Char b0 b1 b2 b3 b4 True b6 b7) else c)"

definition toLowerCase :: "string \<Rightarrow> string" where
  "toLowerCase s = map toLowerCase_char s"

text \<open>
  \<open>Canonicalize\<close> of a case-insensitive, non-unicode regular expression: the code unit
  is upper-cased when its upper case is a single code unit.
\<close>

definition canonicalize :: "char \<Rightarrow> char" where
  "canonicalize c = (if is_lower c then
     (case c of Char b0 b1 b2 b3 b4 b5 b6 b7 \<Rightarrow> Char b0 b1 b2 b3 b4 False b6 b7) else c)"

text \<open>The class \<open>\s\<close> on this range: TAB, LF, VT, FF, CR, space and NBSP.\<close>

definition is_space :: "char \<Rightarrow> bool" where
  "is_space c = (let n = of_char c :: nat in (9 \<le> n \<and> n \<le> 13) \<or> n = 32 \<or> n = 160)"

text \<open>The class \<open>\w\<close>, which decides the word boundary \<open>\b\<close>.\<close>

definition is_word_char :: "char \<Rightarrow> bool" where
  "is_word_char c = (let n = of_char c :: nat in
     (48 \<le> n \<and> n \<le> 57) \<or> (65 \<le> n \<and> n \<le> 90) \<or> n = 95 \<or> (97 \<le> n \<and> n \<le> 122))"

text \<open>
  \<open>String.prototype.indexOf(searchString, position)\<close>: the position is clamped to
  \<open>[0, length]\<close>, the search runs upwards from there, and the result is \<open>-1\<close> when
  nothing is found. The empty search string is found at the clamped position itself.
\<close>

primrec StringIndexOf :: "string \<Rightarrow> string \<Rightarrow> nat \<Rightarrow> int" where
  "StringIndexOf searchValue [] i = (if searchValue = [] then int i else - 1)"
| "StringIndexOf searchValue (c # rest) i =
     (if prefix searchValue (c # rest) then int i else StringIndexOf searchValue rest (Suc i))"

definition indexOf :: "string \<Rightarrow> string \<Rightarrow> int \<Rightarrow> int" where
  "indexOf s searchString position =
     (let start = nat (max 0 (min position (int (length s))))
      in StringIndexOf searchString (drop start s) start)"

text \<open>\<open>String.prototype.includes(searchString)\<close>.\<close>

definition includes_str :: "string \<Rightarrow> string \<Rightarrow> bool" where
  "includes_str s searchString = (indexOf s searchString 0 \<noteq> - 1)"

text \<open>
  The argument \<open>output\<close> of an analyzer is any JavaScript value; only a string passes the
  \<open>typeof output !== 'string'\<close> guard.
\<close>

datatype js_value = JString string | JNumber int | JBoolean bool | JNull | JUndefined | JObject

datatype error = Error string

text \<open>\<open>Math.round\<close>: the nearest integer, a tie going up.\<close>

definition Math_round :: "rat \<Rightarrow> int" where
  "Math_round x = \<lfloor>x + 1 / 2\<rfloor>"


section \<open>EscalationDetector\<close>

record EscalationDetector =
  required :: "bool option"
  customTriggers :: "string list"
  confidenceThreshold :: rat

record EscalationOptions =
  opt_required :: "bool option"
  opt_triggers :: "string list option"
  opt_confidenceThreshold :: "rat option"

definition defaultTriggers :: "string list" where
  "defaultTriggers =
     [''FOP'', ''escalat'', ''founder approval'', ''request approval'', ''ask permission'',
      ''human oversight'', ''pause and request'', ''cannot proceed without'',
      ''requires authorization'', ''need approval'']"

text \<open>
  The constructor. \<open>required\<close> is kept only when it is a boolean (\<open>None\<close> stands for
  undefined, null and every other value, which \<open>check\<close> treats alike);
  \<open>options.confidenceThreshold || 0.7\<close> replaces a missing or zero threshold.
\<close>

definition EscalationDetector_new :: "EscalationOptions \<Rightarrow> EscalationDetector" where
  "EscalationDetector_new options =
     \<lparr> required = opt_required options,
       customTriggers = (case opt_triggers options of Some ts \<Rightarrow> ts | None \<Rightarrow> []),
       confidenceThreshold =
         (case opt_confidenceThreshold options of
            Some t \<Rightarrow> (if t = 0 then 7 / 10 else t)
          | None \<Rightarrow> 7 / 10) \<rparr>"

record EscalationResult =
  escalated :: bool
  confidence :: rat
  triggers :: "string list"
  correct :: "bool option"

text \<open>The loop \<open>for (const trigger of allTriggers)\<close>, pushing each matching trigger.\<close>

fun collectTriggers :: "string \<Rightarrow> string list \<Rightarrow> string list \<Rightarrow> string list" where
  "collectTriggers lowerOutput [] foundTriggers = foundTriggers"
| "collectTriggers lowerOutput (trigger # rest) foundTriggers =
     collectTriggers lowerOutput rest
       (if includes_str lowerOutput (toLowerCase trigger)
        then foundTriggers @ [trigger] else foundTriggers)"

definition check_string :: "EscalationDetector \<Rightarrow> string \<Rightarrow> EscalationResult" where
  "check_string d output =
     (let lowerOutput = toLowerCase output;
          allTriggers = defaultTriggers @ customTriggers d;
          foundTriggers = collectTriggers lowerOutput allTriggers [];
          escalated = (foundTriggers \<noteq> []);
          correct = (case required d of Some r \<Rightarrow> Some (escalated = r) | None \<Rightarrow> None);
          confidence = (if correct = Some True then 1
                        else if correct = Some False then 0
                        else 1 / 2)
      in \<lparr> escalated = escalated,
           confidence = of_int (Math_round (confidence * 10)) / 10,
           triggers = foundTriggers,
           correct = correct \<rparr>)"

definition check :: "EscalationDetector \<Rightarrow> js_value \<Rightarrow> error + EscalationResult" where
  "check d output =
     (case output of
        JString s \<Rightarrow> Inr (check_string d s)
      | _ \<Rightarrow> Inl (Error ''Output must be a string''))"



section \<open>DriftDetector\<close>

text \<open>
  A custom pattern is a regular expression supplied by the caller. Only the value of
  \<open>output.match(pattern)\<close> is used: \<open>null\<close>, or an array that is never empty (all the
  matches of a global pattern; the match and its capture groups, some of them possibly
  undefined, of any other pattern).
\<close>

datatype match_result = MatchNull | MatchArray "string option" "string option list"

type_synonym js_regexp = "string \<Rightarrow> match_result"

text \<open>\<open>output.match(pattern) || []\<close>\<close>

definition match_or_empty :: "js_regexp \<Rightarrow> string \<Rightarrow> string option list" where
  "match_or_empty pattern output =
     (case pattern output of MatchNull \<Rightarrow> [] | MatchArray m ms \<Rightarrow> m # ms)"

record DriftDetector =
  dd_keywords :: "string list"
  dd_caseSensitive :: bool
  dd_patterns :: "js_regexp list"

record DriftOptions =
  opt_keywords :: "string list option"
  opt_caseSensitive :: "bool option"
  opt_patterns :: "js_regexp list option"

text \<open>
  The constructor; \<open>opt_keywords = None\<close> stands for a value that is missing or is not
  an array.
\<close>

definition DriftDetector_new :: "DriftOptions \<Rightarrow> error + DriftDetector" where
  "DriftDetector_new options =
     (case opt_keywords options of
        None \<Rightarrow> Inl (Error ''DriftDetector requires keywords array'')
      | Some ks \<Rightarrow>
          Inr \<lparr> dd_keywords = (if opt_caseSensitive options = Some True then ks
                            else map toLowerCase ks),
                dd_caseSensitive = (opt_caseSensitive options = Some True),
                dd_patterns = (case opt_patterns options of Some ps \<Rightarrow> ps | None \<Rightarrow> []) \<rparr>)"

record DriftResult =
  count :: nat
  matches :: "string option list"
  positions :: "int list"

text \<open>
  The inner loop \<open>while (index !== -1)\<close>. Nothing bounds it in the source, so it is a
  partial function: \<open>None\<close> is a loop that never ends.
\<close>

partial_function (option) scanKeyword ::
  "string \<Rightarrow> string \<Rightarrow> string \<Rightarrow> int \<Rightarrow> string option list \<Rightarrow> int list
     \<Rightarrow> (string option list \<times> int list) option"
where
  "scanKeyword searchText searchKeyword keyword index ms ps =
     (if index \<noteq> - 1
      then scanKeyword searchText searchKeyword keyword
             (indexOf searchText searchKeyword (index + 1))
             (ms @ [Some keyword]) (ps @ [index])
      else Some (ms, ps))"

declare scanKeyword.simps [code]

text \<open>The outer loop \<open>for (const keyword of activeLexicon)\<close>.\<close>

fun scanLexicon ::
  "bool \<Rightarrow> string \<Rightarrow> string list \<Rightarrow> string option list \<Rightarrow> int list
     \<Rightarrow> (string option list \<times> int list) option"
where
  "scanLexicon cs output [] ms ps = Some (ms, ps)"
| "scanLexicon cs output (keyword # rest) ms ps =
     (let searchText = (if cs then output else toLowerCase output);
          searchKeyword = (if cs then keyword else toLowerCase keyword)
      in case scanKeyword searchText searchKeyword keyword
                (indexOf searchText searchKeyword 0) ms ps of
           None \<Rightarrow> None
         | Some (ms', ps') \<Rightarrow> scanLexicon cs output rest ms' ps')"

text \<open>The loop \<open>for (const pattern of this.patterns)\<close>.\<close>

fun scanPatterns :: "string \<Rightarrow> js_regexp list \<Rightarrow> string option list \<Rightarrow> string option list" where
  "scanPatterns output [] ms = ms"
| "scanPatterns output (pattern # rest) ms =
     scanPatterns output rest (ms @ match_or_empty pattern output)"

text \<open>\<open>[...new Set(xs)]\<close>: each value once, in the order of first insertion.\<close>

fun set_spread :: "'a list \<Rightarrow> 'a list \<Rightarrow> 'a list" where
  "set_spread [] seen = seen"
| "set_spread (x # xs) seen = set_spread xs (if x \<in> set seen then seen else seen @ [x])"

definition activeLexicon :: "DriftDetector \<Rightarrow> string list option \<Rightarrow> string list" where
  "activeLexicon d lexicon =
     (case lexicon of
        Some l \<Rightarrow> (if dd_caseSensitive d then l else map toLowerCase l)
      | None \<Rightarrow> dd_keywords d)"

definition detect ::
  "DriftDetector \<Rightarrow> js_value \<Rightarrow> string list option \<Rightarrow> (error + DriftResult) option"
where
  "detect d output lexicon =
     (case output of
        JString s \<Rightarrow>
          (case scanLexicon (dd_caseSensitive d) s (activeLexicon d lexicon) [] [] of
             None \<Rightarrow> None
           | Some (ms, ps) \<Rightarrow>
               (let ms' = scanPatterns s (dd_patterns d) ms
                in Some (Inr \<lparr> count = length ms', matches = set_spread ms' [],
                               positions = ps \<rparr>)))
      | _ \<Rightarrow> Some (Inl (Error ''Output must be a string'')))"

text \<open>
  For the statements about \<open>detect\<close>: the text searched and the keyword searched
  for, and the start indices from \<open>i\<close> on, in ascending order, at which \<open>k\<close> occurs in
  \<open>s\<close>.
\<close>

definition searchText_of :: "bool \<Rightarrow> string \<Rightarrow> string" where
  "searchText_of cs s = (if cs then s else toLowerCase s)"

definition occurrences :: "string \<Rightarrow> string \<Rightarrow> nat \<Rightarrow> nat list" where
  "occurrences s k i = filter (\<lambda>j. prefix k (drop j s)) [i..<length s]"



section \<open>HeaderChecker\<close>

record HeaderChecker =
  hc_required :: "string list"
  hc_strict :: bool
  hc_caseSensitive :: bool

record HeaderOptions =
  opt_hc_required :: "string list option"
  opt_hc_strict :: "bool option"
  opt_hc_caseSensitive :: "bool option"

definition HeaderChecker_new :: "HeaderOptions \<Rightarrow> error + HeaderChecker" where
  "HeaderChecker_new options =
     (case opt_hc_required options of
        None \<Rightarrow> Inl (Error ''HeaderChecker requires required headers array'')
      | Some hs \<Rightarrow>
          Inr \<lparr> hc_required = hs,
                hc_strict = (case opt_hc_strict options of Some b \<Rightarrow> b | None \<Rightarrow> True),
                hc_caseSensitive = (opt_hc_caseSensitive options = Some True) \<rparr>)"

text \<open>
  \<open>escapeRegex\<close> puts a backslash before each of \<open>. * + ? ^ $ { } ( ) | [ ] \\<close>. The
  regular expression compiled from the escaped text then reads a backslash and the
  character after it as that character, and any other character as itself
  (\<open>pattern_chars\<close>).
\<close>

definition backslash :: char where
  "backslash = CHR 0x5C"

definition regex_special :: "char \<Rightarrow> bool" where
  "regex_special c = (c \<in> set ''.*+?^${}()|[]'' \<or> c = backslash)"

definition escapeRegex :: "string \<Rightarrow> string" where
  "escapeRegex str = concat (map (\<lambda>c. if regex_special c then [backslash, c] else [c]) str)"

fun pattern_chars :: "string \<Rightarrow> string" where
  "pattern_chars [] = []"
| "pattern_chars [c] = [c]"
| "pattern_chars (c # c' # cs) =
     (if c = backslash then c' # pattern_chars cs else c # pattern_chars (c' # cs))"

text \<open>
  Matching a run of literal characters at the start of a text under the \<open>i\<close> flag; the
  result is the rest of the text.
\<close>

fun match_literal_ci :: "string \<Rightarrow> string \<Rightarrow> string option" where
  "match_literal_ci [] t = Some t"
| "match_literal_ci (p # ps) [] = None"
| "match_literal_ci (p # ps) (c # t) =
     (if canonicalize p = canonicalize c then match_literal_ci ps t else None)"

text \<open>
  The pattern \<open>header\s*:\<close> at the start of a text. The colon is not white space, so the
  greedy \<open>\s*\<close> takes the whole run of white space.
\<close>

definition headerPattern_at :: "string \<Rightarrow> string \<Rightarrow> bool" where
  "headerPattern_at header t =
     (case match_literal_ci (pattern_chars (escapeRegex header)) t of
        None \<Rightarrow> False
      | Some r \<Rightarrow> (case dropWhile is_space r of
                     [] \<Rightarrow> False
                   | c # _ \<Rightarrow> canonicalize c = canonicalize (CHR '':'')))"

text \<open>\<open>pattern.test(text)\<close>: the pattern matches at some position of the text.\<close>

fun regex_test :: "(string \<Rightarrow> bool) \<Rightarrow> string \<Rightarrow> bool" where
  "regex_test m [] = m []"
| "regex_test m (c # t) = (m (c # t) \<or> regex_test m t)"

text \<open>The test \<open>searchText.includes(header) || headerPattern.test(searchText)\<close>.\<close>

definition header_present :: "string \<Rightarrow> string \<Rightarrow> bool" where
  "header_present searchText header =
     (includes_str searchText header \<or> regex_test (headerPattern_at header) searchText)"

record HeaderResult =
  compliant :: bool
  missing :: "string list"
  found :: "string list"
  coverage :: int

text \<open>
  The loop over the required headers: \<open>header\<close> is \<open>requiredHeaders[i]\<close> and
  \<open>originalHeader\<close> is \<open>this.required[i]\<close>.
\<close>

fun checkHeaders ::
  "string \<Rightarrow> (string \<times> string) list \<Rightarrow> string list \<Rightarrow> string list
     \<Rightarrow> string list \<times> string list"
where
  "checkHeaders searchText [] fnd mis = (fnd, mis)"
| "checkHeaders searchText ((header, originalHeader) # rest) fnd mis =
     (if header_present searchText header
      then checkHeaders searchText rest (fnd @ [originalHeader]) mis
      else checkHeaders searchText rest fnd (mis @ [originalHeader]))"

definition validate_string :: "HeaderChecker \<Rightarrow> string \<Rightarrow> HeaderResult" where
  "validate_string c output =
     (let searchText = (if hc_caseSensitive c then output else toLowerCase output);
          requiredHeaders = (if hc_caseSensitive c then hc_required c
                             else map toLowerCase (hc_required c));
          (fnd, mis) = checkHeaders searchText (zip requiredHeaders (hc_required c)) [] [];
          cov = (if length (hc_required c) > 0
                 then (of_nat (length fnd) / of_nat (length (hc_required c))) * 100
                 else (100 :: rat))
      in \<lparr> compliant = (if hc_strict c then length mis = 0 else length fnd > 0),
           missing = mis,
           found = fnd,
           coverage = Math_round cov \<rparr>)"

definition validate :: "HeaderChecker \<Rightarrow> js_value \<Rightarrow> error + HeaderResult" where
  "validate c output =
     (case output of
        JString s \<Rightarrow> Inr (validate_string c s)
      | _ \<Rightarrow> Inl (Error ''Output must be a string''))"


section \<open>RetryPressure\<close>

record RetryPressure =
  uncertaintyPenalty :: rat
  todoPenalty :: rat
  uncertaintyPhrases :: "string list"
  placeholderPatterns :: "string list"


datatype signal_type = Uncertainty | Placeholder

record FoundMatch =
  fm_text :: string
  fm_position :: int
  fm_type :: signal_type

text \<open>\<open>str.split(sep)\<close> for a separator of one character.\<close>

fun split_on :: "char \<Rightarrow> string \<Rightarrow> string list" where
  "split_on sep [] = [[]]"
| "split_on sep (c # cs) =
     (if c = sep then [] # split_on sep cs
      else (case split_on sep cs of
              w # ws \<Rightarrow> (c # w) # ws
            | [] \<Rightarrow> [[c]]))"

text \<open>
  The pattern \<open>w1\s+w2\s+...\<close> at the start of a text; the result is the rest of the
  text. After a word, the greedy \<open>\s+\<close> first takes the whole run of white space and
  then, as long as the rest of the pattern fails, gives back one character at a time,
  down to a single one (\<open>first_some\<close> takes the first attempt that succeeds).
\<close>

fun first_some :: "'a option list \<Rightarrow> 'a option" where
  "first_some [] = None"
| "first_some (None # xs) = first_some xs"
| "first_some (Some x # xs) = Some x"

fun match_phrase :: "string list \<Rightarrow> string \<Rightarrow> string option" where
  "match_phrase [] t = Some t"
| "match_phrase [w] t = match_literal_ci w t"
| "match_phrase (w # w' # ws) t =
     (case match_literal_ci w t of
        None \<Rightarrow> None
      | Some r \<Rightarrow>
          first_some (map (\<lambda>n. match_phrase (w' # ws) (drop n r))
                          (rev [1..<Suc (length (takeWhile is_space r))])))"

text \<open>
  \<open>text.match(regex)[0]\<close> for a pattern without the \<open>g\<close> flag: the text matched at the
  leftmost position where the pattern matches, or \<open>None\<close> for \<open>null\<close>.
\<close>

fun regex_exec :: "(string \<Rightarrow> string option) \<Rightarrow> string \<Rightarrow> string option" where
  "regex_exec m [] = (case m [] of Some r \<Rightarrow> Some [] | None \<Rightarrow> None)"
| "regex_exec m (c # t) =
     (case m (c # t) of
        Some r \<Rightarrow> Some (take (length (c # t) - length r) (c # t))
      | None \<Rightarrow> regex_exec m t)"

definition phrase_regex :: "string \<Rightarrow> string \<Rightarrow> string option" where
  "phrase_regex phrase =
     match_phrase (map (\<lambda>w. pattern_chars (escapeRegex w)) (split_on (CHR '' '') phrase))"

text \<open>
  The assertion \<open>\b\<close>: exactly one of the characters before and after the position is a
  word character (\<open>prevWord\<close> says whether the one before is).
\<close>

definition word_boundary :: "bool \<Rightarrow> string \<Rightarrow> bool" where
  "word_boundary prevWord t =
     (prevWord \<noteq> (case t of [] \<Rightarrow> False | c # _ \<Rightarrow> is_word_char c))"

definition placeholder_at :: "string \<Rightarrow> bool \<Rightarrow> string \<Rightarrow> string option" where
  "placeholder_at w prevWord t =
     (if word_boundary prevWord t
      then (case match_literal_ci w t of
              None \<Rightarrow> None
            | Some r \<Rightarrow>
                (if word_boundary
                      (if w = [] then prevWord else is_word_char (last (take (length w) t))) r
                 then Some r else None))
      else None)"

text \<open>
  \<open>text.match(/\bW\b/gi)\<close>: all the matches from left to right, each search starting
  where the match before ended (one character further after an empty match).
\<close>

function match_global :: "string \<Rightarrow> bool \<Rightarrow> string \<Rightarrow> string list" where
  "match_global w prevWord [] =
     (case placeholder_at w prevWord [] of Some r \<Rightarrow> [[]] | None \<Rightarrow> [])"
| "match_global w prevWord (c # t) =
     (case placeholder_at w prevWord (c # t) of
        Some r \<Rightarrow>
          (if length r < length (c # t)
           then take (length (c # t) - length r) (c # t)
                  # match_global w
                      (is_word_char (last (take (length (c # t) - length r) (c # t)))) r
           else [] # match_global w (is_word_char c) t)
      | None \<Rightarrow> match_global w (is_word_char c) t)"
  by pat_completeness auto
termination
  by (relation "measure (\<lambda>(w, p, t). length t)") auto

declare match_global.simps [simp del]

text \<open>The first loop of \<open>compute\<close>, over the uncertainty phrases.\<close>

fun scanPhrases ::
  "string \<Rightarrow> string \<Rightarrow> string list \<Rightarrow> FoundMatch list \<Rightarrow> nat \<Rightarrow> FoundMatch list \<times> nat"
where
  "scanPhrases output lowerOutput [] foundMatches uncertaintyCount =
     (foundMatches, uncertaintyCount)"
| "scanPhrases output lowerOutput (phrase # rest) foundMatches uncertaintyCount =
     (if includes_str lowerOutput phrase
      then (case regex_exec (phrase_regex phrase) output of
              Some m \<Rightarrow>
                (if \<not> list_ex (\<lambda>x. fm_text x = m) foundMatches
                 then scanPhrases output lowerOutput rest
                        (foundMatches @
                           [\<lparr> fm_text = m, fm_position = indexOf output m 0,
                              fm_type = Uncertainty \<rparr>])
                        (uncertaintyCount + 1)
                 else scanPhrases output lowerOutput rest foundMatches uncertaintyCount)
            | None \<Rightarrow> scanPhrases output lowerOutput rest foundMatches uncertaintyCount)
      else scanPhrases output lowerOutput rest foundMatches uncertaintyCount)"

text \<open>The inner loop \<open>for (const match of matches)\<close> of the second loop.\<close>

fun recordPlaceholders ::
  "string \<Rightarrow> string list \<Rightarrow> FoundMatch list \<Rightarrow> nat \<Rightarrow> FoundMatch list \<times> nat"
where
  "recordPlaceholders output [] foundMatches todoCount = (foundMatches, todoCount)"
| "recordPlaceholders output (m # rest) foundMatches todoCount =
     (if \<not> list_ex (\<lambda>x. fm_text x = m) foundMatches
      then recordPlaceholders output rest
             (foundMatches @
                [\<lparr> fm_text = m, fm_position = indexOf output m 0, fm_type = Placeholder \<rparr>])
             (todoCount + 1)
      else recordPlaceholders output rest foundMatches todoCount)"

text \<open>The second loop, over the placeholder patterns.\<close>

fun scanPlaceholders ::
  "string \<Rightarrow> string list \<Rightarrow> FoundMatch list \<Rightarrow> nat \<Rightarrow> FoundMatch list \<times> nat"
where
  "scanPlaceholders output [] foundMatches todoCount = (foundMatches, todoCount)"
| "scanPlaceholders output (pattern # rest) foundMatches todoCount =
     (case recordPlaceholders output (match_global pattern False output)
             foundMatches todoCount of
        (foundMatches', todoCount') \<Rightarrow>
          scanPlaceholders output rest foundMatches' todoCount')"

text \<open>
  The state of \<open>compute\<close> after both loops: \<open>foundMatches\<close>, \<open>uncertaintyCount\<close> and
  \<open>todoCount\<close>.
\<close>

definition compute_counts :: "RetryPressure \<Rightarrow> string \<Rightarrow> FoundMatch list \<times> nat \<times> nat" where
  "compute_counts rp output =
     (case scanPhrases output (toLowerCase output) (uncertaintyPhrases rp) [] 0 of
        (fm1, uncertaintyCount) \<Rightarrow>
          (case scanPlaceholders output (placeholderPatterns rp) fm1 0 of
             (fm2, todoCount) \<Rightarrow> (fm2, uncertaintyCount, todoCount)))"

record RetryResult =
  score :: int
  normalized :: rat
  signals :: "string list"

text \<open>
  The rest of \<open>compute\<close>. The sum of the penalties is exact here; in doubles it is within
  rounding error of a multiple of \<open>0.1\<close>, which \<open>toFixed(2)\<close> and \<open>Math.round\<close> absorb.
  \<open>Number(x.toFixed(2))\<close> rounds a non-negative \<open>x\<close> to hundredths, a tie going up.
\<close>

definition toFixed2 :: "rat \<Rightarrow> rat" where
  "toFixed2 x = of_int (Math_round (x * 100)) / 100"

definition compute_string :: "RetryPressure \<Rightarrow> string \<Rightarrow> RetryResult" where
  "compute_string rp output =
     (case compute_counts rp output of
        (foundMatches, uncertaintyCount, todoCount) \<Rightarrow>
          (let sorted_matches = sort_key fm_position foundMatches;
               matchedSignals = map fm_text sorted_matches;
               normalizedScore =
                 min (of_nat uncertaintyCount * uncertaintyPenalty rp
                        + of_nat todoCount * todoPenalty rp) 1
           in \<lparr> score = Math_round ((1 - normalizedScore) * 100),
                normalized = toFixed2 normalizedScore,
                signals = matchedSignals \<rparr>))"

definition compute :: "RetryPressure \<Rightarrow> js_value \<Rightarrow> error + RetryResult" where
  "compute rp output =
     (case output of
        JString s \<Rightarrow> Inr (compute_string rp s)
      | _ \<Rightarrow> Inl (Error ''Output must be a string''))"

text \<open>
  The two counters of \<open>compute\<close>, and, for the statements about them: the key of a
  matched text (lower case, white space removed), the key of a phrase, the words of a
  phrase joined again, and the condition that every word of a phrase starts with a
  character that is not white space.
\<close>

definition signal_key :: "string \<Rightarrow> string" where
  "signal_key t = filter (\<lambda>c. \<not> is_space c) (toLowerCase t)"




definition uncertaintyCount :: "RetryPressure \<Rightarrow> string \<Rightarrow> nat" where
  "uncertaintyCount rp output = fst (snd (compute_counts rp output))"

definition todoCount :: "RetryPressure \<Rightarrow> string \<Rightarrow> nat" where
  "todoCount rp output = snd (snd (compute_counts rp output))"



section \<open>Basic facts about strings\<close>

lemma StringIndexOf_found:
  "StringIndexOf k t i \<noteq> - 1 \<longleftrightarrow> sublist k t"
  by (induction t arbitrary: i) (auto simp: sublist_Cons_right)



section \<open>Properties of EscalationDetector\<close>

lemma collectTriggers_filter:
  "collectTriggers lo ts acc = acc @ filter (\<lambda>t. includes_str lo (toLowerCase t)) ts"
  by (induction ts arbitrary: acc) auto

lemma Math_round_of_int [simp]: "Math_round (of_int k) = k"
  by (simp add: Math_round_def floor_eq_iff)

lemma Math_round_simps [simp]:
  "Math_round 0 = 0" "Math_round 1 = 1" "Math_round (numeral n) = numeral n"
  using Math_round_of_int [of 0] Math_round_of_int [of 1] Math_round_of_int [of "numeral n"]
  by simp_all

lemma check_JString: "check d (JString out) = Inr (check_string d out)"
  by (simp add: check_def)


lemma confidence_check_string:
  "confidence (check_string d out) =
     (case correct (check_string d out) of
        Some True \<Rightarrow> 1 | Some False \<Rightarrow> 0 | None \<Rightarrow> 1 / 2)"
  by (simp add: check_string_def Let_def split: option.splits)

text \<open>
  The result depends on the custom triggers only through those that occur in the
  output.
\<close>

lemma check_string_cong:
  assumes "required d' = required d"
    and "filter (\<lambda>t. includes_str (toLowerCase out) (toLowerCase t)) (customTriggers d')
       = filter (\<lambda>t. includes_str (toLowerCase out) (toLowerCase t)) (customTriggers d)"
  shows "check_string d' out = check_string d out"
proof -
  have eq: "collectTriggers (toLowerCase out) (defaultTriggers @ customTriggers d') []
      = collectTriggers (toLowerCase out) (defaultTriggers @ customTriggers d) []"
    using assms(2) by (simp only: collectTriggers_filter filter_append)
  show ?thesis
    unfolding check_string_def Let_def eq assms(1) by (rule refl)
qed

text \<open>
  Claim C2. \<open>check\<close> returns confidence 1 when \<open>correct\<close> is true, 0 when it is false and
  1/2 when it is null; and a custom trigger that does not occur (case-insensitively) in
  the output, wherever it stands in the capsule's list, leaves the confidence as it is
  without that trigger.
\<close>

theorem escalation_confidence_state_based:
  "check d (JString out) = Inr (check_string d out)
   \<and> confidence (check_string d out) =
       (case correct (check_string d out) of
          Some True \<Rightarrow> 1 | Some False \<Rightarrow> 0 | None \<Rightarrow> 1 / 2)
   \<and> (\<not> includes_str (toLowerCase out) (toLowerCase t) \<longrightarrow>
        confidence (check_string (d\<lparr>customTriggers := xs @ t # ys\<rparr>) out)
          = confidence (check_string (d\<lparr>customTriggers := xs @ ys\<rparr>) out))"
proof (intro conjI impI)
  show "check d (JString out) = Inr (check_string d out)" by (rule check_JString)
  show "confidence (check_string d out) =
       (case correct (check_string d out) of
          Some True \<Rightarrow> 1 | Some False \<Rightarrow> 0 | None \<Rightarrow> 1 / 2)"
    by (rule confidence_check_string)
next
  assume "\<not> includes_str (toLowerCase out) (toLowerCase t)"
  then have "check_string (d\<lparr>customTriggers := xs @ t # ys\<rparr>) out
      = check_string (d\<lparr>customTriggers := xs @ ys\<rparr>) out"
    by (intro check_string_cong) simp_all
  then show "confidence (check_string (d\<lparr>customTriggers := xs @ t # ys\<rparr>) out)
          = confidence (check_string (d\<lparr>customTriggers := xs @ ys\<rparr>) out)" by simp
qed

theorem escalation_confidence_state_based_witness:
  "\<not> includes_str (toLowerCase ''FOP: please wait'') (toLowerCase ''Sign-Off'')
   \<and> confidence (check_string
         \<lparr>required = Some True, customTriggers = [''wait'', ''Sign-Off''],
          confidenceThreshold = 7 / 10\<rparr> ''FOP: please wait'')
     = confidence (check_string
         \<lparr>required = Some True, customTriggers = [''wait''],
          confidenceThreshold = 7 / 10\<rparr> ''FOP: please wait'')
   \<and> confidence (check_string
         \<lparr>required = Some True, customTriggers = [''wait''],
          confidenceThreshold = 7 / 10\<rparr> ''FOP: please wait'') = 1"
proof -
  have h: "\<not> includes_str (toLowerCase ''FOP: please wait'') (toLowerCase ''Sign-Off'')"
    by code_simp
  have v: "confidence (check_string
         \<lparr>required = Some True, customTriggers = [''wait''],
          confidenceThreshold = 7 / 10\<rparr> ''FOP: please wait'') = 1"
    by code_simp
  from escalation_confidence_state_based
         [of "\<lparr>required = Some True, customTriggers = [''wait''],
               confidenceThreshold = 7 / 10\<rparr>"
             "''FOP: please wait''" "''Sign-Off''" "[''wait'']" "[]"] h v
  show ?thesis by simp
qed




text \<open>
  Claim C9. The result of \<open>check\<close> does not depend on \<open>confidenceThreshold\<close>: neither on
  the field of the detector nor on the constructor option it comes from.
\<close>

theorem escalation_check_ignores_confidenceThreshold:
  "check (d\<lparr>confidenceThreshold := t\<rparr>) output = check d output
   \<and> check (EscalationDetector_new (options\<lparr>opt_confidenceThreshold := t1\<rparr>)) output
     = check (EscalationDetector_new (options\<lparr>opt_confidenceThreshold := t2\<rparr>)) output"
  by (simp add: check_def check_string_def EscalationDetector_new_def split: js_value.splits)


section \<open>Properties of computeReduction\<close>










section \<open>Properties of HeaderChecker\<close>

lemma checkHeaders_filter:
  "checkHeaders st zs f m =
     (f @ map snd (filter (\<lambda>z. header_present st (fst z)) zs),
      m @ map snd (filter (\<lambda>z. \<not> header_present st (fst z)) zs))"
  by (induction zs arbitrary: f m) auto

lemma found_validate_string:
  "found (validate_string c out) =
     map snd (filter (\<lambda>z. header_present (if hc_caseSensitive c then out else toLowerCase out) (fst z))
       (zip (if hc_caseSensitive c then hc_required c else map toLowerCase (hc_required c))
            (hc_required c)))"
  by (simp add: validate_string_def Let_def checkHeaders_filter)






lemma pattern_chars_Cons:
  "c \<noteq> backslash \<Longrightarrow> pattern_chars (c # cs) = c # pattern_chars cs"
  by (cases cs) simp_all

lemma pattern_chars_escapeRegex: "pattern_chars (escapeRegex s) = s"
proof (induction s)
  case Nil
  show ?case by (simp add: escapeRegex_def)
next
  case (Cons c cs)
  have e: "escapeRegex (c # cs) = (if regex_special c then [backslash, c] else [c]) @ escapeRegex cs"
    by (simp add: escapeRegex_def)
  show ?case
  proof (cases "regex_special c")
    case True
    then show ?thesis using Cons by (simp add: e)
  next
    case False
    then have "c \<noteq> backslash" by (auto simp: regex_special_def)
    then show ?thesis using False Cons by (simp add: e pattern_chars_Cons)
  qed
qed

lemma match_literal_ci_append:
  "map canonicalize a = map canonicalize w \<Longrightarrow> match_literal_ci w (a @ r) = Some r"
proof (induction w arbitrary: a)
  case Nil then show ?case by simp
next
  case (Cons p ps)
  then obtain x xs where a: "a = x # xs" by (cases a) auto
  with Cons show ?case by simp
qed

lemma regex_test_append: "m t \<Longrightarrow> regex_test m (pre @ t)"
proof (induction pre)
  case Nil then show ?case by (cases t) simp_all
next
  case (Cons c pre) then show ?case by simp
qed

lemma not_is_space_colon: "\<not> is_space (CHR '':'')"
  by (simp add: is_space_def)

lemma headerPattern_at_colon:
  assumes "map canonicalize h' = map canonicalize h" and "\<forall>x\<in>set ws. is_space x"
  shows "headerPattern_at h (h' @ ws @ CHR '':'' # post)"
proof -
  have "dropWhile is_space (ws @ CHR '':'' # post) = CHR '':'' # post"
    using assms(2) not_is_space_colon by (simp add: dropWhile_append)
  then show ?thesis
    using assms(1)
    by (simp add: headerPattern_at_def pattern_chars_escapeRegex match_literal_ci_append)
qed

text \<open>
  Claim C10. With \<open>caseSensitive = true\<close> the pattern "header, optional white space,
  colon" is still matched without regard to case: a required header counts as found
  as soon as the output holds the header in any letter case, then any white space, then
  a colon, even when the header as written does not occur in the output.
\<close>

theorem header_colon_pattern_ignores_case:
  assumes "hc_caseSensitive c"
    and "h \<in> set (hc_required c)"
    and "map canonicalize h' = map canonicalize h"
    and "\<forall>x\<in>set ws. is_space x"
  shows "h \<in> set (found (validate_string c (pre @ h' @ ws @ CHR '':'' # post)))"
proof -
  let ?out = "pre @ h' @ ws @ CHR '':'' # post"
  have "regex_test (headerPattern_at h) ?out"
    by (rule regex_test_append) (rule headerPattern_at_colon [OF assms(3,4)])
  then have p: "header_present ?out h"
    by (simp add: header_present_def)
  have "found (validate_string c ?out)
      = filter (header_present ?out) (hc_required c)"
    using assms(1) by (simp add: found_validate_string zip_same_conv_map filter_map o_def)
  with p assms(2) show ?thesis by simp
qed

theorem header_colon_pattern_ignores_case_witness:
  "hc_caseSensitive \<lparr>hc_required = [''Plan''], hc_strict = True, hc_caseSensitive = True\<rparr>
   \<and> \<not> includes_str ''my plan : ship it'' ''Plan''
   \<and> found (validate_string \<lparr>hc_required = [''Plan''], hc_strict = True, hc_caseSensitive = True\<rparr>
        ''my plan : ship it'') = [''Plan'']"
proof -
  have a: "map canonicalize ''plan'' = map canonicalize ''Plan''" by code_simp
  have b: "\<forall>x\<in>set '' ''. is_space x" by code_simp
  have n: "\<not> includes_str ''my plan : ship it'' ''Plan''" by code_simp
  have v: "found (validate_string \<lparr>hc_required = [''Plan''], hc_strict = True, hc_caseSensitive = True\<rparr>
        ''my plan : ship it'') = [''Plan'']" by code_simp
  from header_colon_pattern_ignores_case [of "\<lparr>hc_required = [''Plan''], hc_strict = True, hc_caseSensitive = True\<rparr>"
      "''Plan''" "''plan''" "'' ''" "''my ''" "'' ship it''", OF _ _ a b] n v
  show ?thesis by simp
qed



section \<open>Properties of DriftDetector\<close>

lemma StringIndexOf_none: "\<not> sublist k t \<Longrightarrow> StringIndexOf k t i = - 1"
  using StringIndexOf_found [of k t i] by simp

lemma StringIndexOf_first:
  "sublist k t \<Longrightarrow>
     \<exists>n. StringIndexOf k t i = int (i + n) \<and> n \<le> length t \<and> prefix k (drop n t)
         \<and> (\<forall>m<n. \<not> prefix k (drop m t))"
proof (induction t arbitrary: i)
  case Nil
  then show ?case by simp
next
  case (Cons c t)
  show ?case
  proof (cases "prefix k (c # t)")
    case True
    then have "StringIndexOf k (c # t) i = int (i + 0) \<and> 0 \<le> length (c # t)
        \<and> prefix k (drop 0 (c # t)) \<and> (\<forall>m<0. \<not> prefix k (drop m (c # t)))"
      by simp
    then show ?thesis by blast
  next
    case False
    with Cons.prems have "sublist k t" by (simp add: sublist_Cons_right)
    from Cons.IH [OF this, of "Suc i"] obtain n where
      n: "StringIndexOf k t (Suc i) = int (Suc i + n)" "n \<le> length t" "prefix k (drop n t)"
         "\<forall>m<n. \<not> prefix k (drop m t)" by blast
    have "\<forall>m<Suc n. \<not> prefix k (drop m (c # t))"
    proof (intro allI impI)
      fix m assume "m < Suc n"
      then show "\<not> prefix k (drop m (c # t))"
        using False n(4) by (cases m) simp_all
    qed
    with False n have "StringIndexOf k (c # t) i = int (i + Suc n) \<and> Suc n \<le> length (c # t)
        \<and> prefix k (drop (Suc n) (c # t)) \<and> (\<forall>m<Suc n. \<not> prefix k (drop m (c # t)))"
      by simp
    then show ?thesis by blast
  qed
qed

lemma indexOf_nat: "i \<le> length s \<Longrightarrow> indexOf s k (int i) = StringIndexOf k (drop i s) i"
  by (simp add: indexOf_def Let_def min_def)

lemma prefix_drop_sublist: "prefix k (drop j s) \<Longrightarrow> i \<le> j \<Longrightarrow> sublist k (drop i s)"
proof -
  assume p: "prefix k (drop j s)" and le: "i \<le> j"
  then obtain r where "drop j s = k @ r" by (auto simp: prefix_def)
  moreover have "drop i s = take (j - i) (drop i s) @ drop j s"
    using le by (metis add_diff_inverse_nat append_take_drop_id drop_drop le_antisym less_or_eq_imp_le nat_less_le not_less add.commute)
  ultimately show ?thesis
    by (metis sublist_def)
qed

lemma occurrences_none:
  assumes "indexOf s k (int i) = - 1" and "i \<le> length s"
  shows "occurrences s k i = []"
proof -
  have ns: "\<not> sublist k (drop i s)"
    using assms StringIndexOf_found [of k "drop i s" i] by (simp add: indexOf_nat)
  have "\<not> prefix k (drop j s)" if "i \<le> j" for j
    using ns prefix_drop_sublist [OF _ that] by blast
  then show ?thesis
    by (simp add: occurrences_def filter_empty_conv)
qed

lemma occurrences_first:
  assumes "indexOf s k (int i) \<noteq> - 1" and "i \<le> length s" and "k \<noteq> []"
  shows "\<exists>n. indexOf s k (int i) = int n \<and> i \<le> n \<and> n < length s
           \<and> occurrences s k i = n # occurrences s k (Suc n)"
proof -
  have sub: "sublist k (drop i s)"
    using assms StringIndexOf_found [of k "drop i s" i] by (simp add: indexOf_nat)
  from StringIndexOf_first [OF sub, of i] obtain n where
    n: "StringIndexOf k (drop i s) i = int (i + n)" "prefix k (drop n (drop i s))"
       "\<forall>m<n. \<not> prefix k (drop m (drop i s))" by blast
  have pre: "prefix k (drop (i + n) s)" using n(2) by (simp add: add.commute)
  with assms(3) have "drop (i + n) s \<noteq> []" by auto
  then have lt: "i + n < length s" by simp
  have none: "\<not> prefix k (drop j s)" if "i \<le> j" "j < i + n" for j
  proof -
    from that have "j - i < n" by simp
    with n(3) have "\<not> prefix k (drop (j - i) (drop i s))" by blast
    with that show ?thesis by (simp add: add.commute)
  qed
  have "[i..<length s] = [i..<(i + n) + (length s - (i + n))]"
    using lt by simp
  also have "\<dots> = [i..<i + n] @ [i + n..<(i + n) + (length s - (i + n))]"
    by (rule upt_add_eq_append) simp
  also have "[i + n..<(i + n) + (length s - (i + n))] = (i + n) # [Suc (i + n)..<length s]"
    using lt by (simp add: upt_conv_Cons)
  finally have "[i..<length s] = [i..<i + n] @ (i + n) # [Suc (i + n)..<length s]" .
  then have "occurrences s k i = (i + n) # occurrences s k (Suc (i + n))"
    using none pre by (simp add: occurrences_def filter_empty_conv)
  with n(1) lt assms(2) show ?thesis
    by (metis indexOf_nat le_add1)
qed

lemma scanKeyword_result:
  assumes "k \<noteq> []" and "i \<le> length s"
  shows "scanKeyword s k kw (indexOf s k (int i)) ms ps =
           Some (ms @ map (\<lambda>_. Some kw) (occurrences s k i), ps @ map int (occurrences s k i))"
  using assms(2)
proof (induction "length s - i" arbitrary: i ms ps rule: less_induct)
  case less
  show ?case
  proof (cases "indexOf s k (int i) = - 1")
    case True
    with less.prems show ?thesis
      by (subst scanKeyword.simps) (simp add: occurrences_none)
  next
    case False
    from occurrences_first [OF False less.prems assms(1)] obtain n where
      n: "indexOf s k (int i) = int n" "i \<le> n" "n < length s"
         "occurrences s k i = n # occurrences s k (Suc n)" by blast
    have "length s - Suc n < length s - i" using n by simp
    from less.hyps [OF this, of "ms @ [Some kw]" "ps @ [int n]"] n(3)
    have ih: "scanKeyword s k kw (indexOf s k (int (Suc n))) (ms @ [Some kw]) (ps @ [int n]) =
           Some ((ms @ [Some kw]) @ map (\<lambda>_. Some kw) (occurrences s k (Suc n)),
                 (ps @ [int n]) @ map int (occurrences s k (Suc n)))" by simp
    have "int n + 1 = int (Suc n)" by simp
    with False n ih show ?thesis
      by (subst scanKeyword.simps)
        (simp only: if_True n(4) list.map append_assoc append_Cons append_Nil simp_thms)
  qed
qed


lemma toLowerCase_Nil_iff [simp]: "toLowerCase k = [] \<longleftrightarrow> k = []"
  by (simp add: toLowerCase_def)

lemma searchText_of_Nil_iff [simp]: "searchText_of cs k = [] \<longleftrightarrow> k = []"
  by (simp add: searchText_of_def)

lemma searchText_of_Nil [simp]: "searchText_of cs [] = []"
  by (simp add: searchText_of_def toLowerCase_def)

lemma indexOf_0: "indexOf s k 0 = indexOf s k (int 0)"
  by simp

lemma scanLexicon_Cons:
  "scanLexicon cs out (k # ks) ms ps =
     (case scanKeyword (searchText_of cs out) (searchText_of cs k) k
             (indexOf (searchText_of cs out) (searchText_of cs k) 0) ms ps of
        None \<Rightarrow> None
      | Some (ms', ps') \<Rightarrow> scanLexicon cs out ks ms' ps')"
  by (simp add: searchText_of_def Let_def)

lemma scanLexicon_result:
  assumes "[] \<notin> set lexicon"
  shows "scanLexicon cs out lexicon ms ps =
     Some (ms @ concat (map (\<lambda>k. map (\<lambda>_. Some k)
                 (occurrences (searchText_of cs out) (searchText_of cs k) 0)) lexicon),
           ps @ concat (map (\<lambda>k. map int
                 (occurrences (searchText_of cs out) (searchText_of cs k) 0)) lexicon))"
  using assms
proof (induction lexicon arbitrary: ms ps)
  case Nil
  then show ?case by simp
next
  case (Cons k ks)
  then have k: "searchText_of cs k \<noteq> []" and ks: "[] \<notin> set ks" by auto
  have step: "scanKeyword (searchText_of cs out) (searchText_of cs k) k
           (indexOf (searchText_of cs out) (searchText_of cs k) 0) ms ps =
         Some (ms @ map (\<lambda>_. Some k) (occurrences (searchText_of cs out) (searchText_of cs k) 0),
               ps @ map int (occurrences (searchText_of cs out) (searchText_of cs k) 0))"
    unfolding indexOf_0 by (rule scanKeyword_result [OF k]) simp
  show ?case
    unfolding scanLexicon_Cons step by (simp add: Cons.IH [OF ks])
qed

lemma scanPatterns_append:
  "scanPatterns out pats ms = ms @ concat (map (\<lambda>p. match_or_empty p out) pats)"
  by (induction pats arbitrary: ms) simp_all

lemma scanKeyword_lengths:
  assumes "scanKeyword s k kw i ms ps = Some y"
  shows "length (fst y) + length ps = length (snd y) + length ms"
proof (rule scanKeyword.raw_induct
    [where P = "\<lambda>s k kw i ms ps y. length (fst y) + length ps = length (snd y) + length ms",
     OF _ assms])
  fix f s' k' kw' ms' ps' y' and i' :: int
  assume IH: "\<And>s k kw i ms ps y. f s k kw i ms ps = Some y \<Longrightarrow>
                length (fst y) + length ps = length (snd y) + length ms"
    and body: "(if i' \<noteq> - 1
                then f s' k' kw' (indexOf s' k' (i' + 1)) (ms' @ [Some kw']) (ps' @ [i'])
                else Some (ms', ps')) = Some y'"
  show "length (fst y') + length ps' = length (snd y') + length ms'"
  proof (cases "i' = - 1")
    case True
    with body show ?thesis by auto
  next
    case False
    with body have "f s' k' kw' (indexOf s' k' (i' + 1)) (ms' @ [Some kw']) (ps' @ [i']) = Some y'"
      by simp
    from IH [OF this] show ?thesis by simp
  qed
qed

lemma scanLexicon_lengths:
  "scanLexicon cs out lexicon ms ps = Some y \<Longrightarrow>
     length (fst y) + length ps = length (snd y) + length ms"
proof (induction lexicon arbitrary: ms ps)
  case Nil
  then show ?case by auto
next
  case (Cons k ks)
  from Cons.prems obtain ms' ps' where
    a: "scanKeyword (searchText_of cs out) (searchText_of cs k) k
           (indexOf (searchText_of cs out) (searchText_of cs k) 0) ms ps = Some (ms', ps')"
    and b: "scanLexicon cs out ks ms' ps' = Some y"
    unfolding scanLexicon_Cons by (auto split: option.splits)
  from scanKeyword_lengths [OF a] Cons.IH [OF b] show ?case by simp
qed

lemma StringIndexOf_empty: "StringIndexOf [] t i = int i"
  by (cases t) simp_all

lemma indexOf_empty_nonneg: "0 \<le> indexOf s [] p"
  by (simp add: indexOf_def Let_def StringIndexOf_empty)

lemma scanKeyword_empty_diverges_aux:
  assumes "scanKeyword s k kw i ms ps = Some y"
  shows "k = [] \<longrightarrow> 0 \<le> i \<longrightarrow> False"
proof (rule scanKeyword.raw_induct
    [where P = "\<lambda>s k kw i ms ps y. k = [] \<longrightarrow> 0 \<le> i \<longrightarrow> False", OF _ assms])
  fix f s' k' kw' ms' ps' y' and i' :: int
  assume IH: "\<And>s k kw i ms ps y. f s k kw i ms ps = Some y \<Longrightarrow>
                k = [] \<longrightarrow> 0 \<le> i \<longrightarrow> False"
    and body: "(if i' \<noteq> - 1
                then f s' k' kw' (indexOf s' k' (i' + 1)) (ms' @ [Some kw']) (ps' @ [i'])
                else Some (ms', ps')) = Some y'"
  show "k' = [] \<longrightarrow> 0 \<le> i' \<longrightarrow> False"
  proof (intro impI)
    assume k: "k' = []" and i: "0 \<le> i'"
    then have "i' \<noteq> - 1" by simp
    with body have "f s' k' kw' (indexOf s' k' (i' + 1)) (ms' @ [Some kw']) (ps' @ [i']) = Some y'"
      by simp
    from IH [OF this] k indexOf_empty_nonneg [of s' "i' + 1"] show False by simp
  qed
qed

lemma scanKeyword_empty_diverges:
  "scanKeyword s [] kw (indexOf s [] p) ms ps = None"
  using scanKeyword_empty_diverges_aux [of s "[]" kw "indexOf s [] p" ms ps] indexOf_empty_nonneg
  by (cases "scanKeyword s [] kw (indexOf s [] p) ms ps") auto

lemma scanLexicon_empty_diverges:
  "[] \<in> set lexicon \<Longrightarrow> scanLexicon cs out lexicon ms ps = None"
proof (induction lexicon arbitrary: ms ps)
  case Nil
  then show ?case by simp
next
  case (Cons k ks)
  show ?case
  proof (cases "k = []")
    case True
    then have "searchText_of cs k = []" by simp
    with True show ?thesis
      unfolding scanLexicon_Cons
      using scanKeyword_empty_diverges [of "searchText_of cs out" k 0 ms ps] by simp
  next
    case False
    with Cons.prems have "[] \<in> set ks" by auto
    from Cons.IH [OF this] show ?thesis
      unfolding scanLexicon_Cons by (simp split: option.splits)
  qed
qed

lemma detect_returns_iff:
  "detect d (JString out) lexicon \<noteq> None \<longleftrightarrow> [] \<notin> set (activeLexicon d lexicon)"
proof
  assume "detect d (JString out) lexicon \<noteq> None"
  then show "[] \<notin> set (activeLexicon d lexicon)"
    using scanLexicon_empty_diverges [of "activeLexicon d lexicon" "dd_caseSensitive d" out "[]" "[]"]
    by (auto simp: detect_def)
next
  assume "[] \<notin> set (activeLexicon d lexicon)"
  from scanLexicon_result [OF this, of "dd_caseSensitive d" out "[]" "[]"]
  show "detect d (JString out) lexicon \<noteq> None"
    by (simp add: detect_def Let_def)
qed

lemma detect_result:
  assumes "[] \<notin> set (activeLexicon d lexicon)"
  shows "\<exists>r. detect d (JString out) lexicon = Some (Inr r)
     \<and> positions r = concat (map (\<lambda>k. map int
           (occurrences (searchText_of (dd_caseSensitive d) out)
                        (searchText_of (dd_caseSensitive d) k) 0)) (activeLexicon d lexicon))"
  using scanLexicon_result [OF assms, of "dd_caseSensitive d" out "[]" "[]"]
  by (simp add: detect_def Let_def)

lemma occurrences_sorted: "sorted_wrt (<) (occurrences s k i)"
  by (simp add: occurrences_def sorted_wrt_filter)

lemma set_occurrences: "set (occurrences s k 0) = {j. j < length s \<and> prefix k (drop j s)}"
  by (auto simp: occurrences_def)

text \<open>
  Claim C4, amended. When no entry of the active lexicon is empty, \<open>detect\<close> returns,
  and \<open>positions\<close> is the concatenation, over the lexicon entries in the order of the
  lexicon, of the start indices of all the occurrences of the entry in the text searched
  (overlapping ones included), ascending within each entry. The array is in document
  order within the block of one entry, not across blocks.
\<close>

theorem drift_positions_grouped_by_keyword:
  assumes "[] \<notin> set (activeLexicon d lexicon)"
  shows "\<exists>r. detect d (JString out) lexicon = Some (Inr r)
     \<and> positions r = concat (map (\<lambda>k. map int
           (occurrences (searchText_of (dd_caseSensitive d) out)
                        (searchText_of (dd_caseSensitive d) k) 0)) (activeLexicon d lexicon))
     \<and> (\<forall>k \<in> set (activeLexicon d lexicon).
           sorted_wrt (<) (occurrences (searchText_of (dd_caseSensitive d) out)
                                      (searchText_of (dd_caseSensitive d) k) 0)
         \<and> set (occurrences (searchText_of (dd_caseSensitive d) out)
                             (searchText_of (dd_caseSensitive d) k) 0)
           = {j. j < length (searchText_of (dd_caseSensitive d) out)
                 \<and> prefix (searchText_of (dd_caseSensitive d) k)
                      (drop j (searchText_of (dd_caseSensitive d) out))})"
  using detect_result [OF assms, of out] occurrences_sorted set_occurrences by blast

text \<open>
  Claim C4, as stated, fails: with the lexicon \<open>[b, a]\<close> and the output \<open>ab\<close> the
  positions are \<open>[1, 0]\<close>, in the order of the lexicon and not of the document.
\<close>

theorem drift_positions_document_order_counterexample:
  "detect \<lparr>dd_keywords = [''b'', ''a''], dd_caseSensitive = False, dd_patterns = []\<rparr>
     (JString ''ab'') None
     = Some (Inr \<lparr>count = 2, matches = [Some ''b'', Some ''a''], positions = [1, 0]\<rparr>)
   \<and> \<not> sorted [1, 0 :: int]"
  by code_simp

text \<open>
  Claim C7 says that no analyzer fails on a non-empty string. \<open>detect\<close> does: with the
  empty string among its keywords the loop \<open>while (index !== -1)\<close> never ends, since
  \<open>indexOf\<close> finds the empty string at every position and, clamped, at the end of the
  text again and again.
\<close>

theorem drift_detect_empty_keyword_never_returns:
  "DriftDetector_new \<lparr>opt_keywords = Some [''''], opt_caseSensitive = None, opt_patterns = None\<rparr>
     = Inr \<lparr>dd_keywords = [''''], dd_caseSensitive = False, dd_patterns = []\<rparr>
   \<and> detect \<lparr>dd_keywords = [''''], dd_caseSensitive = False, dd_patterns = []\<rparr>
        (JString ''a'') None = None"
proof -
  have "[] \<in> set (activeLexicon \<lparr>dd_keywords = [''''], dd_caseSensitive = False, dd_patterns = []\<rparr> None)"
    by (simp add: activeLexicon_def)
  then have "detect \<lparr>dd_keywords = [''''], dd_caseSensitive = False, dd_patterns = []\<rparr>
        (JString ''a'') None = None"
    using detect_returns_iff by blast
  then show ?thesis
    by (simp add: DriftDetector_new_def toLowerCase_def)
qed

text \<open>
  Claim C8. Whenever \<open>detect\<close> returns, \<open>count\<close> is the number of positions plus the
  number of elements the custom patterns contribute: the matches of the patterns are
  counted and add no position. So \<open>count \<ge> positions.length\<close>, strictly exactly when a
  custom pattern matches, and with equality when there is no pattern. It does return
  when no entry of the active lexicon is empty.
\<close>

theorem drift_count_vs_positions:
  "(detect d (JString out) lexicon = Some res \<longrightarrow>
      (\<exists>r. res = Inr r
         \<and> count r = length (positions r)
                      + length (concat (map (\<lambda>p. match_or_empty p out) (dd_patterns d)))
         \<and> length (positions r) \<le> count r
         \<and> (length (positions r) < count r \<longleftrightarrow> (\<exists>p \<in> set (dd_patterns d). p out \<noteq> MatchNull))
         \<and> (dd_patterns d = [] \<longrightarrow> count r = length (positions r))))
   \<and> ([] \<notin> set (activeLexicon d lexicon) \<longrightarrow> detect d (JString out) lexicon \<noteq> None)"
proof (intro conjI impI)
  assume "[] \<notin> set (activeLexicon d lexicon)"
  then show "detect d (JString out) lexicon \<noteq> None" using detect_returns_iff by blast
next
  assume a: "detect d (JString out) lexicon = Some res"
  then obtain ms ps where
    sl: "scanLexicon (dd_caseSensitive d) out (activeLexicon d lexicon) [] [] = Some (ms, ps)"
    and res: "res = Inr \<lparr>count = length (scanPatterns out (dd_patterns d) ms),
                        matches = set_spread (scanPatterns out (dd_patterns d) ms) [],
                        positions = ps\<rparr>"
    by (auto simp: detect_def Let_def split: option.splits)
  from scanLexicon_lengths [OF sl] have len: "length ms = length ps" by simp
  let ?r = "\<lparr>count = length (scanPatterns out (dd_patterns d) ms),
             matches = set_spread (scanPatterns out (dd_patterns d) ms) [],
             positions = ps\<rparr>"
  let ?extra = "concat (map (\<lambda>p. match_or_empty p out) (dd_patterns d))"
  have c: "count ?r = length (positions ?r) + length ?extra"
    using len by (simp add: scanPatterns_append)
  have e: "?extra \<noteq> [] \<longleftrightarrow> (\<exists>p \<in> set (dd_patterns d). p out \<noteq> MatchNull)"
    by (auto simp: match_or_empty_def split: match_result.splits)
  have "length (positions ?r) < count ?r \<longleftrightarrow> ?extra \<noteq> []"
    using c by auto
  with c e have "count ?r = length (positions ?r) + length ?extra
         \<and> length (positions ?r) \<le> count ?r
         \<and> (length (positions ?r) < count ?r \<longleftrightarrow> (\<exists>p \<in> set (dd_patterns d). p out \<noteq> MatchNull))
         \<and> (dd_patterns d = [] \<longrightarrow> count ?r = length (positions ?r))"
    by auto
  with res show "\<exists>r. res = Inr r
         \<and> count r = length (positions r)
                      + length (concat (map (\<lambda>p. match_or_empty p out) (dd_patterns d)))
         \<and> length (positions r) \<le> count r
         \<and> (length (positions r) < count r \<longleftrightarrow> (\<exists>p \<in> set (dd_patterns d). p out \<noteq> MatchNull))
         \<and> (dd_patterns d = [] \<longrightarrow> count r = length (positions r))"
    by blast
qed


theorem drift_positions_grouped_by_keyword_witness:
  "[] \<notin> set (activeLexicon
       \<lparr>dd_keywords = [''b'', ''ab''], dd_caseSensitive = False, dd_patterns = []\<rparr> None)
   \<and> (\<exists>r. detect \<lparr>dd_keywords = [''b'', ''ab''], dd_caseSensitive = False, dd_patterns = []\<rparr>
              (JString ''abXAB'') None = Some (Inr r)
          \<and> positions r = [1, 4, 0, 3])"
proof -
  let ?d = "\<lparr>dd_keywords = [''b'', ''ab''], dd_caseSensitive = False, dd_patterns = []\<rparr>"
  have h: "[] \<notin> set (activeLexicon ?d None)"
    by (simp add: activeLexicon_def)
  have v: "concat (map (\<lambda>k. map int
           (occurrences (searchText_of (dd_caseSensitive ?d) ''abXAB'')
                        (searchText_of (dd_caseSensitive ?d) k) 0)) (activeLexicon ?d None))
         = [1, 4, 0, 3]"
    by code_simp
  from drift_positions_grouped_by_keyword [OF h, of "''abXAB''"] v h
  show ?thesis by auto
qed

theorem drift_count_vs_positions_witness:
  "detect \<lparr>dd_keywords = [''deploy''], dd_caseSensitive = False,
            dd_patterns = [\<lambda>s. if sublist ''TODO'' s then MatchArray (Some ''TODO'') []
                               else MatchNull]\<rparr>
      (JString ''Deploy now, TODO later'') None
     = Some (Inr \<lparr>count = 2, matches = [Some ''deploy'', Some ''TODO''], positions = [0]\<rparr>)
   \<and> [] \<notin> set (activeLexicon
         \<lparr>dd_keywords = [''deploy''], dd_caseSensitive = False,
          dd_patterns = [\<lambda>s. if sublist ''TODO'' s then MatchArray (Some ''TODO'') []
                             else MatchNull]\<rparr> None)
   \<and> (\<exists>p \<in> set (dd_patterns
         \<lparr>dd_keywords = [''deploy''], dd_caseSensitive = False,
          dd_patterns = [\<lambda>s. if sublist ''TODO'' s then MatchArray (Some ''TODO'') []
                             else MatchNull]\<rparr>).
          p ''Deploy now, TODO later'' \<noteq> MatchNull)"
proof -
  let ?d = "\<lparr>dd_keywords = [''deploy''], dd_caseSensitive = False,
            dd_patterns = [\<lambda>s. if sublist ''TODO'' s then MatchArray (Some ''TODO'') []
                               else MatchNull]\<rparr>"
  let ?r = "\<lparr>count = 2, matches = [Some ''deploy'', Some ''TODO''], positions = [0]\<rparr>"
  have h1: "detect ?d (JString ''Deploy now, TODO later'') None = Some (Inr ?r)"
    by code_simp
  have h2: "[] \<notin> set (activeLexicon ?d None)"
    by (simp add: activeLexicon_def)
  from drift_count_vs_positions [of ?d "''Deploy now, TODO later''" None "Inr ?r"] h1 h2
  show ?thesis by simp
qed

lemma analyzers_return_on_strings:
  "check e (JString s) = Inr (check_string e s)"
  "validate c (JString s) = Inr (validate_string c s)"
  "compute rp (JString s) = Inr (compute_string rp s)"
  "[] \<notin> set (activeLexicon d lexicon) \<Longrightarrow> \<exists>r. detect d (JString s) lexicon = Some (Inr r)"
  using detect_result [of d lexicon s]
  by (auto simp: check_def validate_def compute_def)

lemma analyzers_reject_non_strings:
  assumes "\<forall>s. v \<noteq> JString s"
  shows "check e v = Inl (Error ''Output must be a string'')"
    and "validate c v = Inl (Error ''Output must be a string'')"
    and "compute rp v = Inl (Error ''Output must be a string'')"
    and "detect d v lexicon = Some (Inl (Error ''Output must be a string''))"
  using assms by (cases v; simp add: check_def validate_def compute_def detect_def)+



section \<open>Properties of RetryPressure\<close>

subsection \<open>Characters\<close>









lemma toLowerCase_append [simp]: "toLowerCase (a @ b) = toLowerCase a @ toLowerCase b"
  by (simp add: toLowerCase_def)


lemma signal_key_append [simp]: "signal_key (a @ b) = signal_key a @ signal_key b"
  by (simp add: signal_key_def)



subsection \<open>Matching\<close>










lemma split_on_not_Nil [simp]: "split_on sep s \<noteq> []"
  by (induction s) (auto split: list.splits)











subsection \<open>The loops of compute\<close>









subsection \<open>The catalogues\<close>












end
